theory Spec2Isabelle
  imports Main "HOL-Library.Multiset"
begin

section \<open>Python values used by release.py\<close>

text \<open>
  A Python \<open>str\<close> is a sequence of Unicode code points; indexing, slicing and
  \<open>len\<close> count code points. A code point is modelled as a natural number and a
  string as a list of them. \<open>lit\<close> embeds an ASCII literal of the source.
\<close>

type_synonym codepoint = nat
type_synonym str = "codepoint list"

definition lit :: "string \<Rightarrow> str" where
  "lit s = map of_char s"

definition CR :: codepoint where
  "CR = 13"

definition LF :: codepoint where
  "LF = 10"

text \<open>
  Exceptions the code of release.py can raise by itself, and the exit it requests.
  \<open>UnknownCommitMessageStyleError\<close> is not among them: it is raised by the commit
  parser and caught at both call sites, so a parser is a function into \<open>option\<close>.
\<close>

datatype error = IndexError | KeyError | ValueError | SystemExit int

text \<open>
  \<open>str.replace(old, new)\<close>: occurrences of \<open>old\<close> are replaced from left to
  right without overlap; an empty \<open>old\<close> matches before every character and at the
  end.
\<close>

function str_replace :: "str \<Rightarrow> str \<Rightarrow> str \<Rightarrow> str" where
  "str_replace old new s =
     (if old = [] then new @ concat (map (\<lambda>c. c # new) s)
      else if s = [] then []
      else if take (length old) s = old
        then new @ str_replace old new (drop (length old) s)
      else hd s # str_replace old new (tl s))"
  by pat_completeness auto
termination
  by (relation "measure (\<lambda>(old, new, s). length s)") (auto simp: neq_Nil_conv)

declare str_replace.simps [simp del]

text \<open>\<open>str(n)\<close> for an integer, as an f-string formats it: decimal digits, a minus sign.\<close>

fun str_nat :: "nat \<Rightarrow> str" where
  "str_nat n = (if n < 10 then [48 + n] else str_nat (n div 10) @ [48 + n mod 10])"

declare str_nat.simps [simp del]

definition str_int :: "int \<Rightarrow> str" where
  "str_int i = (if i < 0 then 45 # str_nat (nat (- i)) else str_nat (nat i))"

text \<open>
  \<open>s.split(sep)[0]\<close> for a one-character separator: the text before its first
  occurrence, the whole string when there is none.
\<close>

definition split_first :: "codepoint \<Rightarrow> str \<Rightarrow> str" where
  "split_first sep s = takeWhile (\<lambda>c. c \<noteq> sep) s"

section \<open>Commit\<close>

record Commit =
  sha :: str
  message :: str

definition normalize :: "str \<Rightarrow> str" where
  "normalize m = str_replace [CR] [LF] m"

definition Commit_init :: "str \<Rightarrow> str \<Rightarrow> Commit" where
  "Commit_init h m = \<lparr>sha = h, message = normalize m\<rparr>"

definition Commit_str :: "Commit \<Rightarrow> str" where
  "Commit_str c =
     lit ''Commit(sha='' @ [39] @ take 8 (sha c) @ [39] @ lit '', message='' @ [39]
       @ split_first LF (message c) @ [39] @ lit '')''"

section \<open>The commit parser's interface\<close>

text \<open>
  The parser (\<open>semantic_release.history.angular_parser\<close> by default) is a parameter
  of both functions that use it. It returns a \<open>ParsedCommit\<close> or raises
  \<open>UnknownCommitMessageStyleError\<close>, here \<open>None\<close>.
\<close>

record ParsedCommit =
  bump :: int
  type :: str
  scope :: "str option"
  descriptions :: "str list"
  breaking_descriptions :: "str list"

type_synonym commit_parser = "str \<Rightarrow> ParsedCommit option"

text \<open>
  Modelled from the spec: the table \<open>LEVELS\<close> of \<open>semantic_release.history.logs\<close> is
  imported, not defined, by release.py. It is a dictionary from severities to labels,
  and a key may hold \<open>None\<close> for a label: the code tests \<open>level in LEVELS\<close> before
  it reads \<open>LEVELS[level]\<close>, so a key without a label and a missing key are different
  things. The functions below take the table as a parameter. This instance is used
  where a concrete table is needed: the closed three-level scale patch < minor < major
  of the spec under the keys 1, 2 and 3 (release.py compares a bump with 3 for the
  breaking level), and the key 0 holding no label, as in the library's table.
\<close>

definition LEVELS :: "int \<rightharpoonup> str option" where
  "LEVELS = [0 \<mapsto> None, 1 \<mapsto> Some (lit ''patch''), 2 \<mapsto> Some (lit ''minor''),
             3 \<mapsto> Some (lit ''major'')]"

section \<open>evaluate\_version\_bump\<close>

text \<open>
  The loop of lines 67-73: the bump of every commit the parser recognises is appended
  to \<open>changes\<close>; an unrecognised commit is passed over. (\<open>commit_count\<close> is
  incremented and never read.)
\<close>

fun collect_changes :: "commit_parser \<Rightarrow> Commit list \<Rightarrow> int list \<Rightarrow> int list" where
  "collect_changes commit_parser [] changes = changes"
| "collect_changes commit_parser (commit # commits) changes =
     (case commit_parser (message commit) of
        Some parsed \<Rightarrow> collect_changes commit_parser commits (changes @ [bump parsed])
      | None \<Rightarrow> collect_changes commit_parser commits changes)"

text \<open>\<open>max\<close> of a non-empty list, as the builtin scans it: the first of the largest.\<close>

definition py_max :: "int \<Rightarrow> int list \<Rightarrow> int" where
  "py_max x xs = foldl (\<lambda>m y. if m < y then y else m) x xs"

text \<open>
  The result is the returned value together with the lines written to standard
  output, of which there is at most one: the warning of line 80. A level that is a
  key of the table gives the table's entry, which may be \<open>None\<close>, and no warning;
  a level that is not a key gives \<open>None\<close> and the warning.
\<close>

definition evaluate_version_bump ::
  "(int \<rightharpoonup> str option) \<Rightarrow> commit_parser \<Rightarrow> Commit list \<Rightarrow> str option \<times> str list" where
  "evaluate_version_bump levels commit_parser commits =
     (case collect_changes commit_parser commits [] of
        [] \<Rightarrow> (None, [])
      | x # xs \<Rightarrow>
          (let level = py_max x xs in
           case levels level of
             Some entry \<Rightarrow> (entry, [])
           | None \<Rightarrow> (None, [lit ''Unknown bump level '' @ str_int level])))"

section \<open>generate\_changelog\<close>

text \<open>
  The dictionary \<open>changes\<close> keeps its keys in insertion order, which is the order
  \<open>markdown_changelog\<close> prints them in: it is an association list. An entry is a
  tuple (sha, description).
\<close>

type_synonym entry = "str \<times> str"
type_synonym changelog = "(str \<times> entry list) list"

definition dict_contains :: "'k \<Rightarrow> ('k \<times> 'v) list \<Rightarrow> bool" where
  "dict_contains k d = (k \<in> fst ` set d)"

text \<open>\<open>d[k] = v\<close>: a present key keeps its place, a new key goes last.\<close>

fun dict_setitem :: "'k \<Rightarrow> 'v \<Rightarrow> ('k \<times> 'v) list \<Rightarrow> ('k \<times> 'v) list" where
  "dict_setitem k v [] = [(k, v)]"
| "dict_setitem k v ((k', v') # d) =
     (if k' = k then (k, v) # d else (k', v') # dict_setitem k v d)"

text \<open>\<open>d[k].append(x)\<close>: \<open>KeyError\<close> when the key is missing.\<close>

definition dict_append :: "'k \<Rightarrow> 'x \<Rightarrow> ('k \<times> 'x list) list \<Rightarrow> error + ('k \<times> 'x list) list" where
  "dict_append k x d =
     (if dict_contains k d
      then Inr (map (\<lambda>(k', v). if k' = k then (k', v @ [x]) else (k', v)) d)
      else Inl KeyError)"

text \<open>The loop of lines 102-103 over the breaking paragraphs of one commit.\<close>

fun append_breaking :: "str \<Rightarrow> str list \<Rightarrow> changelog \<Rightarrow> error + changelog" where
  "append_breaking h [] changes = Inr changes"
| "append_breaking h (paragraph # paragraphs) changes =
     (case dict_append (lit ''breaking'') (h, paragraph) changes of
        Inl e \<Rightarrow> Inl e
      | Inr changes' \<Rightarrow> append_breaking h paragraphs changes')"

text \<open>
  Lines 93-105, for a commit with hash \<open>h\<close> that the parser turned into
  \<open>parsed\<close>. \<open>upper\<close> is \<open>str.upper\<close> on a one-character string (Python's
  Unicode case table, which may give several characters). \<open>descriptions[0][0]\<close>
  raises \<open>IndexError\<close> when there is no description or the first one is empty;
  only \<open>UnknownCommitMessageStyleError\<close> is caught, so that error leaves
  \<open>generate_changelog\<close>.
\<close>

definition add_parsed ::
  "(codepoint \<Rightarrow> str) \<Rightarrow> str \<Rightarrow> ParsedCommit \<Rightarrow> changelog \<Rightarrow> error + changelog" where
  "add_parsed upper h parsed changes =
     (let changes1 =
            (if \<not> dict_contains (type parsed) changes
             then dict_setitem (type parsed) [] changes else changes)
      in case descriptions parsed of
           [] \<Rightarrow> Inl IndexError
         | d0 # _ \<Rightarrow>
             (case d0 of
                [] \<Rightarrow> Inl IndexError
              | c # rest \<Rightarrow>
                  (let capital_message = upper c @ rest in
                   case dict_append (type parsed) (h, capital_message) changes1 of
                     Inl e \<Rightarrow> Inl e
                   | Inr changes2 \<Rightarrow>
                       if breaking_descriptions parsed \<noteq> []
                       then append_breaking h (breaking_descriptions parsed) changes2
                       else if bump parsed = 3
                       then dict_append (lit ''breaking'') (h, d0) changes2
                       else Inr changes2)))"

fun changelog_loop ::
  "(codepoint \<Rightarrow> str) \<Rightarrow> commit_parser \<Rightarrow> Commit list \<Rightarrow> changelog \<Rightarrow> error + changelog" where
  "changelog_loop upper commit_parser [] changes = Inr changes"
| "changelog_loop upper commit_parser (commit # commits) changes =
     (case commit_parser (message commit) of
        None \<Rightarrow> changelog_loop upper commit_parser commits changes
      | Some parsed \<Rightarrow>
          (case add_parsed upper (sha commit) parsed changes of
             Inl e \<Rightarrow> Inl e
           | Inr changes' \<Rightarrow> changelog_loop upper commit_parser commits changes'))"

definition generate_changelog ::
  "(codepoint \<Rightarrow> str) \<Rightarrow> commit_parser \<Rightarrow> Commit list \<Rightarrow> error + changelog" where
  "generate_changelog upper commit_parser commits =
     changelog_loop upper commit_parser commits [(lit ''breaking'', [])]"

section \<open>markdown\_changelog\<close>

text \<open>
  \<open>str.capitalize\<close>, as CPython computes it: the first character goes through the
  title-case table (the upper-case table before Python 3.8), every later character
  through the lower-case mapping, which may look at the character's neighbours in the
  string (the final sigma) and is therefore given the string and the position.
\<close>

definition capitalize :: "(codepoint \<Rightarrow> str) \<Rightarrow> (str \<Rightarrow> nat \<Rightarrow> str) \<Rightarrow> str \<Rightarrow> str" where
  "capitalize title lower s =
     (case s of
        [] \<Rightarrow> []
      | c # _ \<Rightarrow> title c @ concat (map (lower s) [1..<length s]))"

text \<open>The case tables on ASCII, where they map one letter to one letter.\<close>

definition ascii_upper :: "codepoint \<Rightarrow> str" where
  "ascii_upper c = [if 97 \<le> c \<and> c \<le> 122 then c - 32 else c]"

definition ascii_lower :: "str \<Rightarrow> nat \<Rightarrow> str" where
  "ascii_lower s i = [if 65 \<le> s ! i \<and> s ! i \<le> 90 then s ! i + 32 else s ! i]"

text \<open>The inner loop of lines 123-124: one line per item, a tuple (sha, description).\<close>

fun render_items :: "entry list \<Rightarrow> str \<Rightarrow> str" where
  "render_items [] output = output"
| "render_items (item # items) output =
     render_items items
       (output @ lit ''* '' @ snd item @ lit '' ('' @ fst item @ lit '')'' @ [LF])"

text \<open>The outer loop of lines 118-124 over \<open>changelog.items()\<close>.\<close>

fun render_sections :: "(str \<Rightarrow> str) \<Rightarrow> changelog \<Rightarrow> str \<Rightarrow> str" where
  "render_sections cap [] output = output"
| "render_sections cap ((section, items) # rest) output =
     (if length items = 0 then render_sections cap rest output
      else render_sections cap rest
             (render_items items (output @ [LF] @ lit ''### '' @ cap section @ [LF])))"

definition markdown_changelog ::
  "(codepoint \<Rightarrow> str) \<Rightarrow> (str \<Rightarrow> nat \<Rightarrow> str) \<Rightarrow> str \<Rightarrow> changelog \<Rightarrow> bool \<Rightarrow> str" where
  "markdown_changelog title lower version changelog header =
     render_sections (capitalize title lower) changelog
       (if header then lit ''## v'' @ version @ [LF] else [])"

section \<open>main\<close>

text \<open>
  What the collaborators answer during one run. The answers of git are the outputs
  after \<open>strip()\<close>; \<open>git_rev_list\<close> is asked for a tag name, \<open>gh_commits\<close> for
  the items (sha, commit message) of a URL, in the order the forge lists them;
  \<open>gh_tags\<close> holds the tag names each successive poll sees. The collaborators are
  taken to answer: their own failures are not modelled.
\<close>

record world =
  env_GH_TOKEN :: "str option"
  env_GITHUB_REPOSITORY :: "str option"
  git_remote_origin :: str
  version_number :: str
  git_rev_list :: "str \<Rightarrow> str"
  git_rev_parse_HEAD :: str
  gh_commits :: "str \<Rightarrow> (str \<times> str) list"
  gh_tags :: "str list list"

text \<open>
  The library functions and tables release.py imports: the default commit parser,
  \<open>LEVELS\<close>, \<open>get_new_version\<close> and Python's case tables.
\<close>

record library =
  angular_parser :: commit_parser
  levels :: "int \<rightharpoonup> str option"
  get_new_version :: "str \<Rightarrow> str \<Rightarrow> str"
  to_upper :: "codepoint \<Rightarrow> str"
  to_title :: "codepoint \<Rightarrow> str"
  to_lower :: "str \<Rightarrow> nat \<Rightarrow> str"

text \<open>What a run does to the outside, in order.\<close>

datatype effect =
    Stdout str
  | Write_version_file str
  | Git_add
  | Git_commit str
  | Git_tag str
  | Git_push
  | Get_tags
  | Sleep
  | Post_release str str

datatype outcome = Returned | Raised error

text \<open>The exit status of the process: an uncaught exception other than SystemExit gives 1.\<close>

fun exit_status :: "outcome \<Rightarrow> int" where
  "exit_status Returned = 0"
| "exit_status (Raised (SystemExit n)) = n"
| "exit_status (Raised e) = 1"

text \<open>
  \<open>a, b = s.split(sep, 1)\<close>: the parts around the first separator; unpacking raises
  \<open>ValueError\<close> when the separator does not occur.
\<close>

definition split_once :: "codepoint \<Rightarrow> str \<Rightarrow> error + (str \<times> str)" where
  "split_once sep s =
     (if sep \<in> set s
      then Inr (takeWhile (\<lambda>c. c \<noteq> sep) s, tl (dropWhile (\<lambda>c. c \<noteq> sep) s))
      else Inl ValueError)"

definition get_repo :: "world \<Rightarrow> error + str" where
  "get_repo w =
     (case env_GITHUB_REPOSITORY w of
        Some repo \<Rightarrow> Inr repo
      | None \<Rightarrow>
          (case split_once 58 (git_remote_origin w) of
             Inl e \<Rightarrow> Inl e
           | Inr (_, loc) \<Rightarrow>
               (case split_once 46 loc of
                  Inl e \<Rightarrow> Inl e
                | Inr (repo, _) \<Rightarrow> Inr repo)))"

text \<open>The loop of lines 150-157: it stops at the commit the tag points to.\<close>

fun collect_commits ::
  "str \<Rightarrow> (str \<times> str) list \<Rightarrow> Commit list \<Rightarrow> effect list \<Rightarrow> Commit list \<times> effect list" where
  "collect_commits tag_hash [] commits out = (commits, out)"
| "collect_commits tag_hash ((commit_hash, commit_message) # items) commits out =
     (if commit_hash = tag_hash then (commits, out)
      else (let commit = Commit_init commit_hash commit_message in
            collect_commits tag_hash items (commits @ [commit])
              (out @ [Stdout (lit ''- '' @ Commit_str commit)])))"

text \<open>The loop of lines 185-190: at most five polls, a pause after each miss.\<close>

fun poll_tags :: "nat \<Rightarrow> str \<Rightarrow> str list list \<Rightarrow> effect list" where
  "poll_tags 0 next_tag answers = []"
| "poll_tags (Suc n) next_tag answers =
     (let all_tags = (case answers of [] \<Rightarrow> [] | a # _ \<Rightarrow> a) in
      if next_tag \<in> set all_tags then [Get_tags]
      else [Get_tags, Sleep] @ poll_tags n next_tag (tl answers))"

text \<open>
  Lines 159-192, from the collected commits on; \<open>out\<close> is what the run has done so
  far and \<open>sys.exit(1)\<close> is the outcome \<open>Raised (SystemExit 1)\<close>.
\<close>

definition release ::
  "library \<Rightarrow> world \<Rightarrow> str \<Rightarrow> str \<Rightarrow> Commit list \<Rightarrow> effect list \<Rightarrow> effect list \<times> outcome" where
  "release lib w current_version repo commits out =
     (if length commits > 100
      then (out @ [Stdout (str_nat (length commits) @ lit '' are a lot. Aborting!'')],
            Raised (SystemExit 1))
      else
        (case evaluate_version_bump (levels lib) (angular_parser lib) commits of
           (b, warnings) \<Rightarrow>
             (let out1 = out @ map Stdout warnings
                    @ [Stdout (lit ''bump: '' @ (case b of None \<Rightarrow> lit ''None'' | Some l \<Rightarrow> l))]
              in case b of
                   None \<Rightarrow> (out1 @ [Stdout (lit ''-> nothing to do'')], Returned)
                 | Some l \<Rightarrow>
                     (let next_version = get_new_version lib current_version l;
                          out2 = out1 @ [Stdout (lit ''next version: '' @ next_version)];
                          next_tag = lit ''v'' @ next_version
                      in case generate_changelog (to_upper lib) (angular_parser lib) commits of
                           Inl e \<Rightarrow> (out2, Raised e)
                         | Inr changes \<Rightarrow>
                             (let md = markdown_changelog (to_title lib) (to_lower lib)
                                         next_version changes True
                              in (out2 @ [Stdout md, Write_version_file next_version, Git_add,
                                          Git_commit (lit ''Bump to version '' @ next_tag),
                                          Git_tag next_tag, Git_push]
                                    @ poll_tags 5 next_tag (gh_tags w)
                                    @ [Post_release md next_tag],
                                  Returned))))))"

text \<open>Lines 130-157: the reads that lead to the list of commits since the tag.\<close>

definition main :: "library \<Rightarrow> world \<Rightarrow> effect list \<times> outcome" where
  "main lib w =
     (case env_GH_TOKEN w of
        None \<Rightarrow> ([], Raised KeyError)
      | Some token \<Rightarrow>
          (let current_version = version_number w;
               tag_hash = git_rev_list w (lit ''v'' @ current_version);
               out1 = [Stdout (lit ''current_version: '' @ current_version @ lit '' [''
                                 @ take 8 tag_hash @ lit '']''),
                       Stdout (lit ''sha: '' @ git_rev_parse_HEAD w)]
           in case get_repo w of
                Inl e \<Rightarrow> (out1, Raised e)
              | Inr repo \<Rightarrow>
                  (case collect_commits tag_hash
                          (gh_commits w (lit ''/repos/'' @ repo @ lit ''/commits?sha=''
                                           @ git_rev_parse_HEAD w))
                          [] (out1 @ [Stdout (lit ''repo: '' @ repo)]) of
                     (commits, out2) \<Rightarrow> release lib w current_version repo commits out2)))"

section \<open>Notions the properties are stated with\<close>

text \<open>The commits the parser recognises, in input order, each with its hash.\<close>

fun recognised :: "commit_parser \<Rightarrow> Commit list \<Rightarrow> (str \<times> ParsedCommit) list" where
  "recognised commit_parser [] = []"
| "recognised commit_parser (c # cs) =
     (case commit_parser (message c) of
        Some parsed \<Rightarrow> (sha c, parsed) # recognised commit_parser cs
      | None \<Rightarrow> recognised commit_parser cs)"

definition severities :: "commit_parser \<Rightarrow> Commit list \<Rightarrow> int list" where
  "severities commit_parser commits = map (\<lambda>(h, parsed). bump parsed) (recognised commit_parser commits)"

text \<open>The entries stored under a key; none when the key is missing.\<close>

definition entries_of :: "str \<Rightarrow> changelog \<Rightarrow> entry list" where
  "entries_of k d = (case map_of d k of None \<Rightarrow> [] | Some v \<Rightarrow> v)"

text \<open>
  The data model's invariant of a parsed commit: at least one description, the first
  one not empty.
\<close>

definition well_formed :: "ParsedCommit \<Rightarrow> bool" where
  "well_formed parsed = (case descriptions parsed of [] \<Rightarrow> False | d0 # _ \<Rightarrow> d0 \<noteq> [])"

text \<open>The first description with its first character upper-cased, the rest as it is.\<close>

definition capital_message :: "(codepoint \<Rightarrow> str) \<Rightarrow> ParsedCommit \<Rightarrow> str" where
  "capital_message upper parsed =
     (case descriptions parsed of
        [] \<Rightarrow> []
      | d0 # _ \<Rightarrow> (case d0 of [] \<Rightarrow> [] | c # rest \<Rightarrow> upper c @ rest))"

text \<open>
  What the breaking-change rule of the spec gives for one commit: its breaking
  paragraphs, else its first description as it is when the bump is 3, else nothing.
\<close>

definition breaking_entries :: "str \<Rightarrow> ParsedCommit \<Rightarrow> entry list" where
  "breaking_entries h parsed =
     (if breaking_descriptions parsed \<noteq> [] then map (Pair h) (breaking_descriptions parsed)
      else if bump parsed = 3 then [(h, hd (descriptions parsed))]
      else [])"

text \<open>
  What one recognised commit adds under a key: its capitalised first description under
  its type, and what the breaking-change rule gives under ``breaking''.
\<close>

definition contribution :: "(codepoint \<Rightarrow> str) \<Rightarrow> str \<Rightarrow> str \<times> ParsedCommit \<Rightarrow> entry list" where
  "contribution upper k r =
     (if k = type (snd r) then [(fst r, capital_message upper (snd r))] else [])
       @ (if k = lit ''breaking'' then breaking_entries (fst r) (snd r) else [])"

text \<open>The rendering of one section and of one entry, as the spec words them.\<close>

definition entry_line :: "entry \<Rightarrow> str" where
  "entry_line e = lit ''* '' @ snd e @ lit '' ('' @ fst e @ lit '')'' @ [LF]"

definition section_text :: "(str \<Rightarrow> str) \<Rightarrow> str \<times> entry list \<Rightarrow> str" where
  "section_text cap s =
     [LF] @ lit ''### '' @ cap (fst s) @ [LF] @ concat (map entry_line (snd s))"

text \<open>The effects that change the repository, the version file or the forge.\<close>

fun is_mutation :: "effect \<Rightarrow> bool" where
  "is_mutation (Write_version_file v) = True"
| "is_mutation Git_add = True"
| "is_mutation (Git_commit m) = True"
| "is_mutation (Git_tag t) = True"
| "is_mutation Git_push = True"
| "is_mutation (Post_release body t) = True"
| "is_mutation e = False"

text \<open>
  The commits a run collects since the last tag: none when it fails before the
  listing (no token, or no repository name).
\<close>

definition collected :: "world \<Rightarrow> Commit list option" where
  "collected w =
     (case env_GH_TOKEN w of
        None \<Rightarrow> None
      | Some token \<Rightarrow>
          (case get_repo w of
             Inl e \<Rightarrow> None
           | Inr repo \<Rightarrow>
               Some (map (\<lambda>(h, m). Commit_init h m)
                 (takeWhile (\<lambda>(h, m). h \<noteq> git_rev_list w (lit ''v'' @ version_number w))
                    (gh_commits w (lit ''/repos/'' @ repo @ lit ''/commits?sha=''
                                     @ git_rev_parse_HEAD w))))))"

section \<open>Sample data\<close>

text \<open>
  A commit parser given by a finite table, for running the functions on concrete
  commits: every message outside the table is unrecognised. Its levels go beyond 3,
  as a custom parser's may: the last entry has a bump that no table lists.
\<close>

definition sample_parser :: commit_parser where
  "sample_parser = map_of
     [(lit ''fix: typo'',
         \<lparr>bump = 1, type = lit ''fix'', scope = None,
          descriptions = [lit ''typo''], breaking_descriptions = []\<rparr>),
      (lit ''feat: add login'',
         \<lparr>bump = 2, type = lit ''feature'', scope = None,
          descriptions = [lit ''add login''], breaking_descriptions = []\<rparr>),
      (lit ''docs: readme'',
         \<lparr>bump = 0, type = lit ''documentation'', scope = None,
          descriptions = [lit ''readme''], breaking_descriptions = []\<rparr>),
      (lit ''feat!: drop v1'',
         \<lparr>bump = 3, type = lit ''feature'', scope = None,
          descriptions = [lit ''drop v1''], breaking_descriptions = []\<rparr>),
      (lit ''feat: v2'' @ [LF, LF] @ lit ''BREAKING CHANGE: v1 removed'',
         \<lparr>bump = 3, type = lit ''feature'', scope = None,
          descriptions = [lit ''v2'', lit ''BREAKING CHANGE: v1 removed''],
          breaking_descriptions = [lit ''v1 removed'']\<rparr>),
      (lit ''epic: rewrite'',
         \<lparr>bump = 4, type = lit ''epic'', scope = None,
          descriptions = [lit ''rewrite''], breaking_descriptions = []\<rparr>)]"

text \<open>
  The library of the sample runs. Its \<open>get_new_version\<close> stands for the imported
  function, which release.py calls only after the check on the number of commits.
\<close>

definition sample_library :: library where
  "sample_library =
     \<lparr>angular_parser = sample_parser, levels = LEVELS,
      get_new_version = (\<lambda>current_version b. lit ''9.9.9''),
      to_upper = ascii_upper, to_title = ascii_upper, to_lower = ascii_lower\<rparr>"

text \<open>A repository whose tag lies 101 commits behind HEAD.\<close>

definition sample_world :: world where
  "sample_world =
     \<lparr>env_GH_TOKEN = Some (lit ''token''),
      env_GITHUB_REPOSITORY = Some (lit ''acts/release-test''),
      git_remote_origin = lit ''git@github.com:acts/release-test.git'',
      version_number = lit ''1.2.3'',
      git_rev_list = (\<lambda>tag. lit ''0000''),
      git_rev_parse_HEAD = lit ''ffff'',
      gh_commits = (\<lambda>url. replicate 101 (lit ''abcd'', lit ''fix: typo'')),
      gh_tags = []\<rparr>"

section \<open>Auxiliary facts\<close>

subsection \<open>Strings\<close>

lemma str_replace_char:
  "str_replace [a] [b] s = map (\<lambda>c. if c = a then b else c) s"
proof (induction s)
  case Nil
  show ?case by (simp add: str_replace.simps)
next
  case (Cons x xs)
  show ?case
    by (subst str_replace.simps) (simp add: Cons.IH take_Suc_conv_app_nth)
qed

lemma normalize_map: "normalize m = map (\<lambda>c. if c = CR then LF else c) m"
  by (simp add: normalize_def str_replace_char)

subsection \<open>The evaluator\<close>

lemma recognised_empty_iff:
  "recognised p cs = [] \<longleftrightarrow> (\<forall>c \<in> set cs. p (message c) = None)"
  by (induction cs) (auto split: option.splits)

lemma collect_changes_eq:
  "collect_changes p cs acc = acc @ severities p cs"
  unfolding severities_def
  by (induction cs arbitrary: acc) (auto split: option.splits)

lemma py_max_eq: "py_max x xs = Max (set (x # xs))"
proof (induction xs arbitrary: x)
  case Nil
  then show ?case by (simp add: py_max_def)
next
  case (Cons y ys)
  have "py_max x (y # ys) = py_max (if x < y then y else x) ys"
    by (simp add: py_max_def)
  also have "\<dots> = Max (set ((if x < y then y else x) # ys))"
    by (rule Cons.IH)
  also have "\<dots> = Max (set (x # y # ys))"
    by (cases ys) (auto simp: max_def)
  finally show ?case .
qed

lemma evaluate_version_bump_eq:
  assumes "severities p cs \<noteq> []"
  shows "evaluate_version_bump lv p cs =
     (case lv (Max (set (severities p cs))) of
        Some entry \<Rightarrow> (entry, [])
      | None \<Rightarrow> (None, [lit ''Unknown bump level '' @ str_int (Max (set (severities p cs)))]))"
proof -
  obtain x xs where xs: "severities p cs = x # xs"
    using assms by (cases "severities p cs") auto
  then show ?thesis
    by (simp add: evaluate_version_bump_def collect_changes_eq py_max_eq Let_def
          split: option.splits)
qed

lemma evaluate_version_bump_none:
  assumes "severities p cs = []"
  shows "evaluate_version_bump lv p cs = (None, [])"
  using assms by (simp add: evaluate_version_bump_def collect_changes_eq)

lemma severities_empty_iff:
  "severities p cs = [] \<longleftrightarrow> (\<forall>c \<in> set cs. p (message c) = None)"
  by (simp add: severities_def recognised_empty_iff)

lemma mset_recognised:
  assumes "mset cs = mset cs'"
  shows "mset (recognised p cs) = mset (recognised p cs')"
proof -
  have "mset (recognised p xs) =
     image_mset (\<lambda>c. (sha c, the (p (message c))))
       (filter_mset (\<lambda>c. p (message c) \<noteq> None) (mset xs))" for xs
    by (induction xs) (auto split: option.splits)
  then show ?thesis using assms by simp
qed

lemma mset_severities:
  assumes "mset cs = mset cs'"
  shows "mset (severities p cs) = mset (severities p cs')"
  using mset_recognised [OF assms, of p] unfolding severities_def
  by (metis mset_map)

lemma evaluate_depends_on_mset:
  assumes "mset (severities p cs) = mset (severities p cs')"
  shows "evaluate_version_bump lv p cs = evaluate_version_bump lv p cs'"
proof (cases "severities p cs = []")
  case True
  then have "severities p cs' = []" using assms by (metis mset_zero_iff)
  with True show ?thesis by (simp add: evaluate_version_bump_none)
next
  case False
  then have ne: "severities p cs' \<noteq> []" using assms by (metis mset_zero_iff)
  have "set (severities p cs) = set (severities p cs')"
    using assms by (rule mset_eq_setD)
  then have "Max (set (severities p cs)) = Max (set (severities p cs'))"
    by simp
  then show ?thesis
    by (simp only: evaluate_version_bump_eq [OF False] evaluate_version_bump_eq [OF ne])
qed

subsection \<open>The dictionary\<close>

lemma dict_contains_map_of: "dict_contains k d \<longleftrightarrow> map_of d k \<noteq> None"
  by (simp add: dict_contains_def map_of_eq_None_iff)

lemma map_of_dict_setitem: "map_of (dict_setitem k v d) = (map_of d)(k \<mapsto> v)"
  by (induction d) (auto simp: fun_eq_iff)

lemma dict_contains_setitem:
  "dict_contains k' (dict_setitem k v d) \<longleftrightarrow> k' = k \<or> dict_contains k' d"
  by (simp add: dict_contains_map_of map_of_dict_setitem)

lemma entries_of_new_key:
  assumes "\<not> dict_contains k d"
  shows "entries_of k' (dict_setitem k [] d) = entries_of k' d"
  using assms
  by (simp add: entries_of_def map_of_dict_setitem dict_contains_map_of)

lemma map_of_append_entry:
  "map_of (map (\<lambda>(k', v). if k' = k then (k', v @ [x]) else (k', v)) d) k'' =
     (if k'' = k then map_option (\<lambda>v. v @ [x]) (map_of d k) else map_of d k'')"
  by (induction d) auto

lemma dict_append_ok:
  assumes "dict_contains k d"
  shows "\<exists>d'. dict_append k x d = Inr d'
           \<and> (\<forall>k'. dict_contains k' d' \<longleftrightarrow> dict_contains k' d)
           \<and> (\<forall>k'. entries_of k' d' = entries_of k' d @ (if k' = k then [x] else []))"
proof -
  let ?d' = "map (\<lambda>(k', v). if k' = k then (k', v @ [x]) else (k', v)) d"
  have "dict_append k x d = Inr ?d'"
    using assms by (simp add: dict_append_def)
  moreover have "dict_contains k' ?d' \<longleftrightarrow> dict_contains k' d" for k'
    by (auto simp: dict_contains_map_of map_of_append_entry)
  moreover have "entries_of k' ?d' = entries_of k' d @ (if k' = k then [x] else [])" for k'
    using assms
    by (auto simp: entries_of_def map_of_append_entry dict_contains_map_of split: option.splits)
  ultimately show ?thesis by blast
qed

lemma append_breaking_ok:
  assumes "dict_contains (lit ''breaking'') d"
  shows "\<exists>d'. append_breaking h ps d = Inr d'
           \<and> (\<forall>k. dict_contains k d' \<longleftrightarrow> dict_contains k d)
           \<and> (\<forall>k. entries_of k d' =
                  entries_of k d @ (if k = lit ''breaking'' then map (Pair h) ps else []))"
  using assms
proof (induction ps arbitrary: d)
  case Nil
  then show ?case by simp
next
  case (Cons q qs)
  from dict_append_ok [OF Cons.prems, of "(h, q)"]
  obtain d1 where d1: "dict_append (lit ''breaking'') (h, q) d = Inr d1"
    and c1: "\<And>k. dict_contains k d1 \<longleftrightarrow> dict_contains k d"
    and e1: "\<And>k. entries_of k d1 =
                entries_of k d @ (if k = lit ''breaking'' then [(h, q)] else [])"
    by blast
  from c1 Cons.prems have "dict_contains (lit ''breaking'') d1" by simp
  from Cons.IH [OF this] obtain d2 where d2: "append_breaking h qs d1 = Inr d2"
    and c2: "\<And>k. dict_contains k d2 \<longleftrightarrow> dict_contains k d1"
    and e2: "\<And>k. entries_of k d2 =
                entries_of k d1 @ (if k = lit ''breaking'' then map (Pair h) qs else [])"
    by blast
  show ?case
    using d1 d2 c1 c2 e1 e2 by simp
qed

subsection \<open>One commit\<close>

lemma add_parsed_ill_formed:
  assumes "\<not> well_formed pc"
  shows "add_parsed upper h pc d = Inl IndexError"
  using assms
  by (auto simp: add_parsed_def well_formed_def Let_def split: list.splits)

lemma add_parsed_ok:
  assumes wf: "well_formed pc" and br: "dict_contains (lit ''breaking'') d"
  shows "\<exists>d'. add_parsed upper h pc d = Inr d'
           \<and> (\<forall>k. dict_contains k d' \<longleftrightarrow> k = type pc \<or> dict_contains k d)
           \<and> (\<forall>k. entries_of k d' = entries_of k d @ contribution upper k (h, pc))"
proof -
  from wf obtain c rest more where ds: "descriptions pc = (c # rest) # more"
    by (auto simp: well_formed_def neq_Nil_conv split: list.splits)
  define d1 where "d1 = (if \<not> dict_contains (type pc) d
                          then dict_setitem (type pc) [] d else d)"
  have c1: "dict_contains k d1 \<longleftrightarrow> k = type pc \<or> dict_contains k d" for k
    by (auto simp: d1_def dict_contains_setitem)
  have e1: "entries_of k d1 = entries_of k d" for k
    by (simp add: d1_def entries_of_new_key)
  have "dict_contains (type pc) d1" by (simp add: c1)
  from dict_append_ok [OF this, of "(h, upper c @ rest)"]
  obtain d2 where d2: "dict_append (type pc) (h, upper c @ rest) d1 = Inr d2"
    and c2: "\<And>k. dict_contains k d2 \<longleftrightarrow> dict_contains k d1"
    and e2: "\<And>k. entries_of k d2 =
                entries_of k d1 @ (if k = type pc then [(h, upper c @ rest)] else [])"
    by blast
  have br2: "dict_contains (lit ''breaking'') d2"
    using br by (simp add: c1 c2)
  have cap: "capital_message upper pc = upper c @ rest"
    by (simp add: capital_message_def ds)
  have step: "add_parsed upper h pc d =
      (if breaking_descriptions pc \<noteq> []
       then append_breaking h (breaking_descriptions pc) d2
       else if bump pc = 3 then dict_append (lit ''breaking'') (h, c # rest) d2
       else Inr d2)"
    using d2 by (simp add: add_parsed_def ds Let_def d1_def)
  consider (paragraphs) "breaking_descriptions pc \<noteq> []"
    | (major) "breaking_descriptions pc = []" "bump pc = 3"
    | (neither) "breaking_descriptions pc = []" "bump pc \<noteq> 3"
    by blast
  then show ?thesis
  proof cases
    case paragraphs
    from append_breaking_ok [OF br2, of h "breaking_descriptions pc"]
    obtain d3 where d3: "append_breaking h (breaking_descriptions pc) d2 = Inr d3"
      and c3: "\<And>k. dict_contains k d3 \<longleftrightarrow> dict_contains k d2"
      and e3: "\<And>k. entries_of k d3 = entries_of k d2 @
                 (if k = lit ''breaking'' then map (Pair h) (breaking_descriptions pc) else [])"
      by blast
    show ?thesis
      using paragraphs step d3 c1 c2 c3 e1 e2 e3
      by (simp add: contribution_def breaking_entries_def cap)
  next
    case major
    from dict_append_ok [OF br2, of "(h, c # rest)"]
    obtain d3 where d3: "dict_append (lit ''breaking'') (h, c # rest) d2 = Inr d3"
      and c3: "\<And>k. dict_contains k d3 \<longleftrightarrow> dict_contains k d2"
      and e3: "\<And>k. entries_of k d3 = entries_of k d2 @
                 (if k = lit ''breaking'' then [(h, c # rest)] else [])"
      by blast
    show ?thesis
      using major step d3 c1 c2 c3 e1 e2 e3
      by (simp add: contribution_def breaking_entries_def cap ds)
  next
    case neither
    show ?thesis
      using neither step c1 c2 e1 e2
      by (simp add: contribution_def breaking_entries_def cap)
  qed
qed

subsection \<open>The loop\<close>

lemma changelog_loop_ok:
  assumes "\<forall>r \<in> set (recognised p cs). well_formed (snd r)"
    and "dict_contains (lit ''breaking'') d"
  shows "\<exists>d'. changelog_loop upper p cs d = Inr d'
           \<and> (\<forall>k. dict_contains k d' \<longleftrightarrow>
                  dict_contains k d \<or> k \<in> (\<lambda>r. type (snd r)) ` set (recognised p cs))
           \<and> (\<forall>k. entries_of k d' =
                  entries_of k d @ concat (map (contribution upper k) (recognised p cs)))"
  using assms
proof (induction cs arbitrary: d)
  case Nil
  then show ?case by simp
next
  case (Cons c cs)
  show ?case
  proof (cases "p (message c)")
    case None
    with Cons show ?thesis by simp
  next
    case (Some pc)
    with Cons.prems have wf: "well_formed pc"
      and rest: "\<forall>r \<in> set (recognised p cs). well_formed (snd r)" by simp_all
    from add_parsed_ok [OF wf Cons.prems(2), of upper "sha c"]
    obtain d1 where d1: "add_parsed upper (sha c) pc d = Inr d1"
      and c1: "\<And>k. dict_contains k d1 \<longleftrightarrow> k = type pc \<or> dict_contains k d"
      and e1: "\<And>k. entries_of k d1 = entries_of k d @ contribution upper k (sha c, pc)"
      by blast
    have "dict_contains (lit ''breaking'') d1"
      using Cons.prems(2) by (simp add: c1)
    from Cons.IH [OF rest this] obtain d2 where d2: "changelog_loop upper p cs d1 = Inr d2"
      and c2: "\<And>k. dict_contains k d2 \<longleftrightarrow>
                  dict_contains k d1 \<or> k \<in> (\<lambda>r. type (snd r)) ` set (recognised p cs)"
      and e2: "\<And>k. entries_of k d2 =
                  entries_of k d1 @ concat (map (contribution upper k) (recognised p cs))"
      by blast
    show ?thesis
      using Some d1 d2 c1 c2 e1 e2 by auto
  qed
qed

lemma changelog_loop_error:
  assumes "changelog_loop upper p cs d = Inl e"
    and "dict_contains (lit ''breaking'') d"
  shows "e = IndexError \<and> (\<exists>r \<in> set (recognised p cs). \<not> well_formed (snd r))"
  using assms
proof (induction cs arbitrary: d)
  case Nil
  then show ?case by simp
next
  case (Cons c cs)
  show ?case
  proof (cases "p (message c)")
    case None
    with Cons show ?thesis by simp
  next
    case (Some pc)
    show ?thesis
    proof (cases "well_formed pc")
      case False
      then have "add_parsed upper (sha c) pc d = Inl IndexError"
        by (rule add_parsed_ill_formed)
      with Cons.prems Some False show ?thesis by simp
    next
      case True
      from add_parsed_ok [OF True Cons.prems(2), of upper "sha c"]
      obtain d1 where d1: "add_parsed upper (sha c) pc d = Inr d1"
        and c1: "\<And>k. dict_contains k d1 \<longleftrightarrow> k = type pc \<or> dict_contains k d"
        by blast
      have "dict_contains (lit ''breaking'') d1"
        using Cons.prems(2) by (simp add: c1)
      moreover have "changelog_loop upper p cs d1 = Inl e"
        using Cons.prems(1) Some d1 by simp
      ultimately have "e = IndexError \<and> (\<exists>r \<in> set (recognised p cs). \<not> well_formed (snd r))"
        by (rule Cons.IH [rotated])
      then show ?thesis using Some by auto
    qed
  qed
qed

lemma changelog_loop_ill_formed:
  assumes "\<exists>r \<in> set (recognised p cs). \<not> well_formed (snd r)"
    and "dict_contains (lit ''breaking'') d"
  shows "changelog_loop upper p cs d = Inl IndexError"
  using assms
proof (induction cs arbitrary: d)
  case Nil
  then show ?case by simp
next
  case (Cons c cs)
  show ?case
  proof (cases "p (message c)")
    case None
    with Cons show ?thesis by simp
  next
    case (Some pc)
    show ?thesis
    proof (cases "well_formed pc")
      case False
      then show ?thesis by (simp add: Some add_parsed_ill_formed)
    next
      case True
      from add_parsed_ok [OF True Cons.prems(2), of upper "sha c"]
      obtain d1 where d1: "add_parsed upper (sha c) pc d = Inr d1"
        and c1: "\<And>k. dict_contains k d1 \<longleftrightarrow> k = type pc \<or> dict_contains k d"
        by blast
      have "dict_contains (lit ''breaking'') d1"
        using Cons.prems(2) by (simp add: c1)
      moreover have "\<exists>r \<in> set (recognised p cs). \<not> well_formed (snd r)"
        using Cons.prems(1) Some True by simp
      ultimately have "changelog_loop upper p cs d1 = Inl IndexError"
        by (rule Cons.IH [rotated])
      then show ?thesis by (simp add: Some d1)
    qed
  qed
qed

lemma changelog_loop_append:
  "changelog_loop upper p (xs @ ys) d =
     (case changelog_loop upper p xs d of
        Inl e \<Rightarrow> Inl e
      | Inr d' \<Rightarrow> changelog_loop upper p ys d')"
  by (induction xs arbitrary: d) (auto split: option.splits sum.splits)

lemma breaking_key_initial: "dict_contains (lit ''breaking'') [(lit ''breaking'', [])]"
  by (simp add: dict_contains_def)

lemma generate_changelog_keeps_breaking:
  assumes "generate_changelog upper p cs = Inr d"
  shows "dict_contains (lit ''breaking'') d"
proof -
  have "\<forall>r \<in> set (recognised p cs). well_formed (snd r)"
    using assms changelog_loop_ill_formed [OF _ breaking_key_initial, of p cs upper]
    unfolding generate_changelog_def by fastforce
  from changelog_loop_ok [OF this breaking_key_initial, of upper] assms
  show ?thesis unfolding generate_changelog_def
    using breaking_key_initial by auto
qed

lemma entries_of_initial: "entries_of k [(lit ''breaking'', [])] = []"
  by (simp add: entries_of_def)

subsection \<open>The renderer\<close>

lemma render_items_eq: "render_items items out = out @ concat (map entry_line items)"
  by (induction items arbitrary: out) (simp_all add: entry_line_def)

lemma render_sections_eq:
  "render_sections cap ch out =
     out @ concat (map (section_text cap) (filter (\<lambda>s. snd s \<noteq> []) ch))"
  by (induction cap ch out rule: render_sections.induct)
     (simp_all add: render_items_eq section_text_def)

subsection \<open>The orchestrator\<close>

lemma collect_commits_eq:
  "collect_commits tag items commits out =
     (commits @ map (\<lambda>(h, m). Commit_init h m) (takeWhile (\<lambda>(h, m). h \<noteq> tag) items),
      out @ map (\<lambda>(h, m). Stdout (lit ''- '' @ Commit_str (Commit_init h m)))
              (takeWhile (\<lambda>(h, m). h \<noteq> tag) items))"
  by (induction tag items commits out rule: collect_commits.induct) (simp_all add: Let_def)

lemma release_abort:
  assumes "length commits > 100"
  shows "release lib w v repo commits out =
     (out @ [Stdout (str_nat (length commits) @ lit '' are a lot. Aborting!'')],
      Raised (SystemExit 1))"
  using assms by (simp add: release_def)

lemma main_abort:
  assumes "collected w = Some cs" and "length cs > 100"
  shows "\<exists>out. main lib w = (out, Raised (SystemExit 1)) \<and> (\<forall>e \<in> set out. \<exists>s. e = Stdout s)"
proof -
  from assms(1) obtain token repo where tok: "env_GH_TOKEN w = Some token"
    and repo: "get_repo w = Inr repo"
    and cs: "cs = map (\<lambda>(h, m). Commit_init h m)
                 (takeWhile (\<lambda>(h, m). h \<noteq> git_rev_list w (lit ''v'' @ version_number w))
                    (gh_commits w (lit ''/repos/'' @ repo @ lit ''/commits?sha=''
                                     @ git_rev_parse_HEAD w)))"
    by (auto simp: collected_def split: option.splits sum.splits)
  show ?thesis
    using assms(2) unfolding cs
    by (auto simp: main_def tok repo Let_def collect_commits_eq release_abort)
qed

subsection \<open>The whole changelog\<close>

lemma concat_map_if:
  "concat (map (\<lambda>r. if P r then [f r] else []) xs) = map f (filter P xs)"
  by (induction xs) simp_all

lemma generate_changelog_ok:
  assumes "\<forall>r \<in> set (recognised p cs). well_formed (snd r)"
  shows "\<exists>d. generate_changelog upper p cs = Inr d
           \<and> (\<forall>k. dict_contains k d \<longleftrightarrow>
                  k = lit ''breaking'' \<or> k \<in> (\<lambda>r. type (snd r)) ` set (recognised p cs))
           \<and> (\<forall>k. entries_of k d = concat (map (contribution upper k) (recognised p cs)))"
  using changelog_loop_ok [OF assms breaking_key_initial, of upper]
  unfolding generate_changelog_def
  by (simp add: entries_of_initial) (simp add: dict_contains_def)

lemma generate_changelog_snoc:
  assumes pre: "generate_changelog upper p pre = Inr d"
    and parsed: "p (message commit) = Some pc"
    and wf: "well_formed pc"
  shows "\<exists>d'. generate_changelog upper p (pre @ [commit]) = Inr d'
           \<and> (\<forall>k. entries_of k d' = entries_of k d @ contribution upper k (sha commit, pc))"
proof -
  have br: "dict_contains (lit ''breaking'') d"
    using pre by (rule generate_changelog_keeps_breaking)
  from add_parsed_ok [OF wf br, of upper "sha commit"]
  obtain d' where d': "add_parsed upper (sha commit) pc d = Inr d'"
    and e: "\<And>k. entries_of k d' = entries_of k d @ contribution upper k (sha commit, pc)"
    by blast
  have "generate_changelog upper p (pre @ [commit]) = Inr d'"
    using pre parsed d'
    by (simp add: generate_changelog_def changelog_loop_append)
  with e show ?thesis by blast
qed

section \<open>Unfolding the sample data\<close>

lemmas sample_simps =
  sample_parser_def severities_def Commit_init_def normalize_map lit_def LEVELS_def CR_def LF_def

section \<open>The Commit Normalizer\<close>

text \<open>
  Claim C9. For every raw sha and raw message text, the message of the constructed
  Commit contains no carriage return. The constructor is a total function with no
  error result: it maps every carriage return to a line feed, changes no other
  character and keeps the sha.
\<close>

theorem normalizer_leaves_no_carriage_return:
  "CR \<notin> set (message (Commit_init h m))
   \<and> message (Commit_init h m) = map (\<lambda>c. if c = CR then LF else c) m
   \<and> sha (Commit_init h m) = h"
  by (auto simp: Commit_init_def normalize_map CR_def LF_def)

theorem normalizer_leaves_no_carriage_return_witness:
  "CR \<notin> set (message (Commit_init (lit ''abc'') [102, 105, 120, 13, 10, 120, 13]))
   \<and> message (Commit_init (lit ''abc'') [102, 105, 120, 13, 10, 120, 13])
       = [102, 105, 120, 10, 10, 120, 10]"
  using normalizer_leaves_no_carriage_return [of "lit ''abc''" "[102, 105, 120, 13, 10, 120, 13]"]
  by (simp add: CR_def LF_def)

section \<open>The Bump Evaluator\<close>

text \<open>
  Claim C4. For every sequence of commits the evaluator returns the maximum severity
  among the commits the parser recognises, looked up in the level table (no bump when
  the table has no label for it), and returns no bump (\<open>None\<close>) when the sequence
  is empty or no commit is recognised.
\<close>

theorem bump_is_maximum_severity:
  "fst (evaluate_version_bump lv p cs) =
     (if severities p cs = [] then None
      else (case lv (Max (set (severities p cs))) of Some entry \<Rightarrow> entry | None \<Rightarrow> None))
   \<and> ((\<forall>c \<in> set cs. p (message c) = None) \<longrightarrow> fst (evaluate_version_bump lv p cs) = None)"
proof (cases "severities p cs = []")
  case True
  then show ?thesis by (simp add: evaluate_version_bump_none)
next
  case False
  then have "\<not> (\<forall>c \<in> set cs. p (message c) = None)"
    by (simp add: severities_empty_iff)
  then show ?thesis
    using False by (auto simp: evaluate_version_bump_eq split: option.splits)
qed

theorem bump_is_maximum_severity_witness:
  "fst (evaluate_version_bump LEVELS sample_parser
          [Commit_init (lit ''a1'') (lit ''fix: typo''),
           Commit_init (lit ''b2'') (lit ''merge branch''),
           Commit_init (lit ''c3'') (lit ''feat: add login'')])
     = Some (lit ''minor'')
   \<and> fst (evaluate_version_bump LEVELS sample_parser
             [Commit_init (lit ''b2'') (lit ''merge branch'')]) = None
   \<and> fst (evaluate_version_bump LEVELS sample_parser []) = None"
  using bump_is_maximum_severity [of LEVELS sample_parser
          "[Commit_init (lit ''a1'') (lit ''fix: typo''),
           Commit_init (lit ''b2'') (lit ''merge branch''),
           Commit_init (lit ''c3'') (lit ''feat: add login'')]"]
    bump_is_maximum_severity [of LEVELS sample_parser
          "[Commit_init (lit ''b2'') (lit ''merge branch'')]"]
    bump_is_maximum_severity [of LEVELS sample_parser "[]"]
  by (simp add: sample_simps)

text \<open>
  Claim C8. A permutation of the commit sequence gives the same result, the warning
  included; more generally the result depends only on the multiset of the severities
  of the recognised commits.
\<close>

theorem bump_is_permutation_invariant:
  "(mset cs = mset cs' \<longrightarrow>
      evaluate_version_bump lv p cs = evaluate_version_bump lv p cs')
   \<and> (mset (severities p cs) = mset (severities p cs') \<longrightarrow>
      evaluate_version_bump lv p cs = evaluate_version_bump lv p cs')"
  using mset_severities [of cs cs' p] evaluate_depends_on_mset [of p cs cs' lv]
  by blast

theorem bump_is_permutation_invariant_witness:
  "mset [Commit_init (lit ''a1'') (lit ''fix: typo''),
         Commit_init (lit ''b2'') (lit ''merge branch''),
         Commit_init (lit ''c3'') (lit ''feat: add login'')]
   = mset [Commit_init (lit ''c3'') (lit ''feat: add login''),
           Commit_init (lit ''a1'') (lit ''fix: typo''),
           Commit_init (lit ''b2'') (lit ''merge branch'')]
   \<and> evaluate_version_bump LEVELS sample_parser
         [Commit_init (lit ''a1'') (lit ''fix: typo''),
          Commit_init (lit ''b2'') (lit ''merge branch''),
          Commit_init (lit ''c3'') (lit ''feat: add login'')]
     = evaluate_version_bump LEVELS sample_parser
         [Commit_init (lit ''c3'') (lit ''feat: add login''),
          Commit_init (lit ''a1'') (lit ''fix: typo''),
          Commit_init (lit ''b2'') (lit ''merge branch'')]
   \<and> evaluate_version_bump LEVELS sample_parser
         [Commit_init (lit ''c3'') (lit ''feat: add login''),
          Commit_init (lit ''a1'') (lit ''fix: typo''),
          Commit_init (lit ''b2'') (lit ''merge branch'')]
     = (Some (lit ''minor''), [])"
proof -
  let ?a = "Commit_init (lit ''a1'') (lit ''fix: typo'')"
  let ?b = "Commit_init (lit ''b2'') (lit ''merge branch'')"
  let ?c = "Commit_init (lit ''c3'') (lit ''feat: add login'')"
  have perm: "mset [?a, ?b, ?c] = mset [?c, ?a, ?b]"
    by (simp add: add_mset_commute)
  have same: "evaluate_version_bump LEVELS sample_parser [?a, ?b, ?c]
      = evaluate_version_bump LEVELS sample_parser [?c, ?a, ?b]"
    using bump_is_permutation_invariant [of "[?a, ?b, ?c]" "[?c, ?a, ?b]" LEVELS sample_parser] perm
    by blast
  have val: "evaluate_version_bump LEVELS sample_parser [?c, ?a, ?b] = (Some (lit ''minor''), [])"
    by (simp add: evaluate_version_bump_def py_max_def sample_simps)
  from perm same val show ?thesis by blast
qed

text \<open>
  Claim C1, as stated, fails. It asks that a severity outside the level table be
  reported as a warning and cost only its own commit, the evaluator still returning
  the highest mapped severity of the others. With severities 2 and 4, of which 4 is
  not a key of the table, the evaluator prints the warning and returns no bump at
  all, not ``minor''. With severities 2 and 0, of which 0 has no label, it returns
  ``minor'' and reports nothing about the 0.
\<close>

theorem unmapped_severity_counterexample:
  "evaluate_version_bump LEVELS sample_parser
     [Commit_init (lit ''a1'') (lit ''feat: add login''),
      Commit_init (lit ''b2'') (lit ''epic: rewrite'')]
     = (None, [lit ''Unknown bump level 4''])
   \<and> evaluate_version_bump LEVELS sample_parser
     [Commit_init (lit ''a1'') (lit ''feat: add login''),
      Commit_init (lit ''b2'') (lit ''docs: readme'')]
     = (Some (lit ''minor''), [])
   \<and> LEVELS 4 = None \<and> LEVELS 0 = Some None \<and> LEVELS 2 = Some (Some (lit ''minor''))"
  by (simp add: evaluate_version_bump_def py_max_def sample_simps str_int_def str_nat.simps)

text \<open>
  Claim C1, amended. Only the maximum severity of the recognised commits counts. When
  it is not a key of the level table, one warning naming it is printed and the result
  is no bump, whatever the other severities. When it is a key, the table's entry for
  it is returned --- its label, or no bump when the key holds no label --- and nothing
  is printed, whatever the other severities.
\<close>

theorem only_the_maximum_severity_counts:
  assumes "severities p cs \<noteq> []"
  shows "(lv (Max (set (severities p cs))) = None \<longrightarrow>
            evaluate_version_bump lv p cs =
              (None, [lit ''Unknown bump level '' @ str_int (Max (set (severities p cs)))]))
       \<and> (\<forall>entry. lv (Max (set (severities p cs))) = Some entry \<longrightarrow>
            evaluate_version_bump lv p cs = (entry, []))"
  by (simp add: evaluate_version_bump_eq [OF assms])

theorem only_the_maximum_severity_counts_witness:
  "severities sample_parser
     [Commit_init (lit ''a1'') (lit ''feat: add login''),
      Commit_init (lit ''b2'') (lit ''epic: rewrite'')] = [2, 4]
   \<and> evaluate_version_bump LEVELS sample_parser
     [Commit_init (lit ''a1'') (lit ''feat: add login''),
      Commit_init (lit ''b2'') (lit ''epic: rewrite'')]
     = (None, [lit ''Unknown bump level 4''])
   \<and> severities sample_parser
     [Commit_init (lit ''a1'') (lit ''feat: add login''),
      Commit_init (lit ''b2'') (lit ''docs: readme'')] = [2, 0]
   \<and> evaluate_version_bump LEVELS sample_parser
     [Commit_init (lit ''a1'') (lit ''feat: add login''),
      Commit_init (lit ''b2'') (lit ''docs: readme'')]
     = (Some (lit ''minor''), [])
   \<and> severities sample_parser [Commit_init (lit ''b2'') (lit ''docs: readme'')] = [0]
   \<and> evaluate_version_bump LEVELS sample_parser
     [Commit_init (lit ''b2'') (lit ''docs: readme'')]
     = (None, [])"
proof -
  let ?a = "Commit_init (lit ''a1'') (lit ''feat: add login'')"
  let ?e = "Commit_init (lit ''b2'') (lit ''epic: rewrite'')"
  let ?d = "Commit_init (lit ''b2'') (lit ''docs: readme'')"
  have s1: "severities sample_parser [?a, ?e] = [2, 4]"
    and s2: "severities sample_parser [?a, ?d] = [2, 0]"
    and s3: "severities sample_parser [?d] = [0]"
    by (simp_all add: sample_simps)
  have n1: "severities sample_parser [?a, ?e] \<noteq> []"
    and n2: "severities sample_parser [?a, ?d] \<noteq> []"
    and n3: "severities sample_parser [?d] \<noteq> []"
    by (simp_all add: s1 s2 s3)
  have m1: "Max (set (severities sample_parser [?a, ?e])) = 4"
    and m2: "Max (set (severities sample_parser [?a, ?d])) = 2"
    and m3: "Max (set (severities sample_parser [?d])) = 0"
    by (simp_all add: s1 s2 s3)
  have l1: "LEVELS 4 = None" and l2: "LEVELS 2 = Some (Some (lit ''minor''))"
    and l3: "LEVELS 0 = Some None"
    by (simp_all add: LEVELS_def)
  have w: "lit ''Unknown bump level '' @ str_int 4 = lit ''Unknown bump level 4''"
    by (simp add: str_int_def str_nat.simps lit_def)
  have "evaluate_version_bump LEVELS sample_parser [?a, ?e] = (None, [lit ''Unknown bump level 4''])"
    using only_the_maximum_severity_counts [OF n1, of LEVELS] l1
    unfolding m1 w by blast
  moreover have "evaluate_version_bump LEVELS sample_parser [?a, ?d] = (Some (lit ''minor''), [])"
    using only_the_maximum_severity_counts [OF n2, of LEVELS] l2
    unfolding m2 by blast
  moreover have "evaluate_version_bump LEVELS sample_parser [?d] = (None, [])"
    using only_the_maximum_severity_counts [OF n3, of LEVELS] l3
    unfolding m3 by blast
  ultimately show ?thesis using s1 s2 s3 by blast
qed

section \<open>The Changelog Builder\<close>

text \<open>
  Claim C7. The changelog the builder returns always has the key ``breaking'': for
  every commit sequence the builder either returns a changelog with that key, or
  raises \<open>IndexError\<close> because a recognised commit has no first character to
  capitalise; and on the empty sequence, or when no commit is recognised, it returns
  the changelog whose only key is ``breaking'', with no entries.
\<close>

theorem breaking_key_always_present:
  "(case generate_changelog upper p cs of
      Inr changes \<Rightarrow> dict_contains (lit ''breaking'') changes
    | Inl e \<Rightarrow> e = IndexError \<and> (\<exists>r \<in> set (recognised p cs). \<not> well_formed (snd r)))
   \<and> ((\<forall>c \<in> set cs. p (message c) = None) \<longrightarrow>
        generate_changelog upper p cs = Inr [(lit ''breaking'', [])])"
proof -
  have "dict_contains (lit ''breaking'') d" if "generate_changelog upper p cs = Inr d" for d
    using that by (rule generate_changelog_keeps_breaking)
  moreover have "e = IndexError \<and> (\<exists>r \<in> set (recognised p cs). \<not> well_formed (snd r))"
    if "generate_changelog upper p cs = Inl e" for e
    using changelog_loop_error [OF _ breaking_key_initial, of upper p cs e] that
    by (simp add: generate_changelog_def)
  moreover have "changelog_loop upper p cs d = Inr d"
    if "\<forall>c \<in> set cs. p (message c) = None" for d
    using that by (induction cs) simp_all
  ultimately show ?thesis
    by (simp add: generate_changelog_def split: sum.splits)
qed

theorem breaking_key_always_present_witness:
  "generate_changelog ascii_upper sample_parser [] = Inr [(lit ''breaking'', [])]
   \<and> generate_changelog ascii_upper sample_parser
        [Commit_init (lit ''a1'') (lit ''merge branch'')] = Inr [(lit ''breaking'', [])]
   \<and> dict_contains (lit ''breaking'') ([(lit ''breaking'', [])] :: changelog)
   \<and> generate_changelog ascii_upper sample_parser
        [Commit_init (lit ''b2'') (lit ''fix: typo'')]
      = Inr [(lit ''breaking'', []), (lit ''fix'', [(lit ''b2'', lit ''Typo'')])]
   \<and> dict_contains (lit ''breaking'')
        [(lit ''breaking'', []), (lit ''fix'', [(lit ''b2'', lit ''Typo'')])]"
proof -
  have u: "\<forall>c \<in> set [Commit_init (lit ''a1'') (lit ''merge branch'')].
             sample_parser (message c) = None"
    by (simp add: sample_simps)
  have r: "generate_changelog ascii_upper sample_parser
        [Commit_init (lit ''b2'') (lit ''fix: typo'')]
      = Inr [(lit ''breaking'', []), (lit ''fix'', [(lit ''b2'', lit ''Typo'')])]"
    by (simp add: generate_changelog_def add_parsed_def dict_append_def dict_contains_def
          ascii_upper_def sample_simps)
  have e1: "generate_changelog ascii_upper sample_parser [] = Inr [(lit ''breaking'', [])]"
    using breaking_key_always_present [where upper = ascii_upper and p = sample_parser
        and cs = "[]"]
    by simp
  have e2: "generate_changelog ascii_upper sample_parser
        [Commit_init (lit ''a1'') (lit ''merge branch'')] = Inr [(lit ''breaking'', [])]"
    using breaking_key_always_present [where upper = ascii_upper and p = sample_parser
        and cs = "[Commit_init (lit ''a1'') (lit ''merge branch'')]"] u
    by blast
  have k1: "dict_contains (lit ''breaking'') ([(lit ''breaking'', [])] :: changelog)"
    using breaking_key_always_present [where upper = ascii_upper and p = sample_parser
        and cs = "[]"]
    unfolding e1 by simp
  have k2: "dict_contains (lit ''breaking'')
        [(lit ''breaking'', []), (lit ''fix'', [(lit ''b2'', lit ''Typo'')])]"
    using breaking_key_always_present [where upper = ascii_upper and p = sample_parser
        and cs = "[Commit_init (lit ''b2'') (lit ''fix: typo'')]"]
    unfolding r by simp
  from e1 e2 k1 r k2 show ?thesis by blast
qed

text \<open>
  Claim C6. After any commits the builder has processed, a further commit that the
  parser recognises and whose first description is a non-empty text \<open>c # rest\<close>
  is processed without error, and what it leaves under the key of its type is the
  entries that were there followed by the pair of its sha and \<open>upper c @ rest\<close>:
  the first character upper-cased, every other character as it was. (Only when the
  type is the word ``breaking'' itself do the commit's breaking entries follow under
  the same key.)
\<close>

theorem type_entry_capitalises_first_character:
  assumes "generate_changelog upper p pre = Inr changes"
    and "p (message commit) = Some parsed"
    and "descriptions parsed = (c # rest) # others"
  shows "\<exists>changes'. generate_changelog upper p (pre @ [commit]) = Inr changes'
           \<and> entries_of (type parsed) changes' =
               entries_of (type parsed) changes @ (sha commit, upper c @ rest)
                 # (if type parsed = lit ''breaking''
                    then breaking_entries (sha commit) parsed else [])"
proof -
  have wf: "well_formed parsed"
    by (simp add: well_formed_def assms(3))
  have cap: "capital_message upper parsed = upper c @ rest"
    by (simp add: capital_message_def assms(3))
  from generate_changelog_snoc [OF assms(1,2) wf]
  show ?thesis by (auto simp: contribution_def cap)
qed

theorem type_entry_capitalises_first_character_witness:
  "generate_changelog ascii_upper sample_parser [Commit_init (lit ''a1'') (lit ''fix: typo'')]
     = Inr [(lit ''breaking'', []), (lit ''fix'', [(lit ''a1'', lit ''Typo'')])]
   \<and> sample_parser (message (Commit_init (lit ''b2'') (lit ''feat: add login'')))
     = Some \<lparr>bump = 2, type = lit ''feature'', scope = None,
          descriptions = [lit ''add login''], breaking_descriptions = []\<rparr>
   \<and> (\<exists>changes'.
        generate_changelog ascii_upper sample_parser
          ([Commit_init (lit ''a1'') (lit ''fix: typo'')]
             @ [Commit_init (lit ''b2'') (lit ''feat: add login'')]) = Inr changes'
        \<and> entries_of (lit ''feature'') changes' = [(lit ''b2'', lit ''Add login'')])"
proof -
  let ?a = "Commit_init (lit ''a1'') (lit ''fix: typo'')"
  let ?b = "Commit_init (lit ''b2'') (lit ''feat: add login'')"
  let ?d = "[(lit ''breaking'', []), (lit ''fix'', [(lit ''a1'', lit ''Typo'')])]"
  let ?pc = "\<lparr>bump = 2, type = lit ''feature'', scope = None,
          descriptions = [lit ''add login''], breaking_descriptions = []\<rparr>"
  have g: "generate_changelog ascii_upper sample_parser [?a] = Inr ?d"
    by (simp add: generate_changelog_def add_parsed_def dict_append_def dict_contains_def
          ascii_upper_def sample_simps)
  have q: "sample_parser (message ?b) = Some ?pc"
    by (simp add: sample_simps)
  have ds: "descriptions ?pc = (97 # lit ''dd login'') # []"
    by (simp add: lit_def)
  from type_entry_capitalises_first_character [OF g q ds]
  obtain changes' where
    "generate_changelog ascii_upper sample_parser ([?a] @ [?b]) = Inr changes'"
    "entries_of (type ?pc) changes' =
       entries_of (type ?pc) ?d @ (sha ?b, ascii_upper 97 @ lit ''dd login'')
         # (if type ?pc = lit ''breaking'' then breaking_entries (sha ?b) ?pc else [])"
    by blast
  then have "generate_changelog ascii_upper sample_parser ([?a] @ [?b]) = Inr changes'
     \<and> entries_of (lit ''feature'') changes' = [(lit ''b2'', lit ''Add login'')]"
    by (simp add: entries_of_def ascii_upper_def lit_def Commit_init_def)
  with g q show ?thesis by blast
qed

text \<open>
  Claim C2. Take a commit that the parser recognises, processed after any others. Its
  type is not the reserved word ``breaking'' and its first description \<open>d0\<close> is not
  empty, as the data model has it. Then the commit is processed without error and the
  entries under ``breaking'' grow by exactly: each breaking paragraph paired with the
  sha, in order, when there are breaking paragraphs; otherwise the pair of the sha and
  \<open>d0\<close> as it is, not capitalised, when the bump is 3; otherwise nothing.
\<close>

theorem breaking_section_additions:
  assumes "generate_changelog upper p pre = Inr changes"
    and "p (message commit) = Some parsed"
    and "type parsed \<noteq> lit ''breaking''"
    and "descriptions parsed = d0 # others" and "d0 \<noteq> []"
  shows "\<exists>changes'. generate_changelog upper p (pre @ [commit]) = Inr changes'
           \<and> entries_of (lit ''breaking'') changes' =
               entries_of (lit ''breaking'') changes
                 @ (if breaking_descriptions parsed \<noteq> []
                    then map (\<lambda>paragraph. (sha commit, paragraph))
                           (breaking_descriptions parsed)
                    else if bump parsed = 3 then [(sha commit, d0)]
                    else [])"
proof -
  have wf: "well_formed parsed"
    using assms(4,5) by (simp add: well_formed_def)
  from generate_changelog_snoc [OF assms(1,2) wf] assms(3,4)
  show ?thesis
    by (auto simp: contribution_def breaking_entries_def)
qed

theorem breaking_section_additions_witness:
  "(\<exists>changes'.
      generate_changelog ascii_upper sample_parser
        ([Commit_init (lit ''a1'') (lit ''fix: typo'')]
           @ [Commit_init (lit ''b2'') (lit ''feat!: drop v1'')]) = Inr changes'
      \<and> entries_of (lit ''breaking'') changes' = [(lit ''b2'', lit ''drop v1'')])
   \<and> (\<exists>changes'.
      generate_changelog ascii_upper sample_parser
        ([Commit_init (lit ''a1'') (lit ''fix: typo'')]
           @ [Commit_init (lit ''c3'')
                (lit ''feat: v2'' @ [LF, LF] @ lit ''BREAKING CHANGE: v1 removed'')])
        = Inr changes'
      \<and> entries_of (lit ''breaking'') changes' = [(lit ''c3'', lit ''v1 removed'')])
   \<and> (\<exists>changes'.
      generate_changelog ascii_upper sample_parser
        ([Commit_init (lit ''a1'') (lit ''fix: typo'')]
           @ [Commit_init (lit ''d4'') (lit ''feat: add login'')]) = Inr changes'
      \<and> entries_of (lit ''breaking'') changes' = [])"
proof -
  let ?a = "Commit_init (lit ''a1'') (lit ''fix: typo'')"
  let ?b = "Commit_init (lit ''b2'') (lit ''feat!: drop v1'')"
  let ?c = "Commit_init (lit ''c3'')
              (lit ''feat: v2'' @ [LF, LF] @ lit ''BREAKING CHANGE: v1 removed'')"
  let ?e = "Commit_init (lit ''d4'') (lit ''feat: add login'')"
  let ?d = "[(lit ''breaking'', []), (lit ''fix'', [(lit ''a1'', lit ''Typo'')])]"
  let ?pb = "\<lparr>bump = 3, type = lit ''feature'', scope = None,
          descriptions = [lit ''drop v1''], breaking_descriptions = []\<rparr>"
  let ?pc = "\<lparr>bump = 3, type = lit ''feature'', scope = None,
          descriptions = [lit ''v2'', lit ''BREAKING CHANGE: v1 removed''],
          breaking_descriptions = [lit ''v1 removed'']\<rparr>"
  let ?pe = "\<lparr>bump = 2, type = lit ''feature'', scope = None,
          descriptions = [lit ''add login''], breaking_descriptions = []\<rparr>"
  have g: "generate_changelog ascii_upper sample_parser [?a] = Inr ?d"
    by (simp add: generate_changelog_def add_parsed_def dict_append_def dict_contains_def
          ascii_upper_def sample_simps)
  have old: "entries_of (lit ''breaking'') ?d = []"
    by (simp add: entries_of_def)
  have qb: "sample_parser (message ?b) = Some ?pb"
    and qc: "sample_parser (message ?c) = Some ?pc"
    and qe: "sample_parser (message ?e) = Some ?pe"
    by (simp_all add: sample_simps)
  have tb: "type ?pb \<noteq> lit ''breaking''" and tc: "type ?pc \<noteq> lit ''breaking''"
    and te: "type ?pe \<noteq> lit ''breaking''"
    by (simp_all add: lit_def)
  have db: "descriptions ?pb = lit ''drop v1'' # []"
    and dc: "descriptions ?pc = lit ''v2'' # [lit ''BREAKING CHANGE: v1 removed'']"
    and de: "descriptions ?pe = lit ''add login'' # []"
    by simp_all
  have nb: "lit ''drop v1'' \<noteq> []" and nc: "lit ''v2'' \<noteq> []"
    and ne: "lit ''add login'' \<noteq> []"
    by (simp_all add: lit_def)
  have "\<exists>changes'. generate_changelog ascii_upper sample_parser ([?a] @ [?b]) = Inr changes'
      \<and> entries_of (lit ''breaking'') changes' = [(lit ''b2'', lit ''drop v1'')]"
    using breaking_section_additions [OF g qb tb db nb] by (simp add: old Commit_init_def)
  moreover have "\<exists>changes'. generate_changelog ascii_upper sample_parser ([?a] @ [?c]) = Inr changes'
      \<and> entries_of (lit ''breaking'') changes' = [(lit ''c3'', lit ''v1 removed'')]"
    using breaking_section_additions [OF g qc tc dc nc] by (simp add: old Commit_init_def)
  moreover have "\<exists>changes'. generate_changelog ascii_upper sample_parser ([?a] @ [?e]) = Inr changes'
      \<and> entries_of (lit ''breaking'') changes' = []"
    using breaking_section_additions [OF g qe te de ne] by (simp add: old)
  ultimately show ?thesis by blast
qed

text \<open>
  Claim C10. When every recognised commit is well formed the builder returns, and
  under every key the entries are exactly what the recognised commits contribute, in
  input order: each commit its capitalised first description under its type, whatever
  its bump and breaking paragraphs, and in addition its breaking entries under
  ``breaking''. So under a key other than ``breaking'' the entries are those of all
  commits of that type, breaking or not, and each commit's breaking entries stand
  beside its type entry, not in place of it.
\<close>

theorem type_entry_is_unconditional:
  assumes "\<forall>r \<in> set (recognised p cs). well_formed (snd r)"
  shows "\<exists>changes. generate_changelog upper p cs = Inr changes
     \<and> (\<forall>k. entries_of k changes = concat (map (contribution upper k) (recognised p cs)))
     \<and> (\<forall>k. k \<noteq> lit ''breaking'' \<longrightarrow>
           entries_of k changes =
             map (\<lambda>r. (fst r, capital_message upper (snd r)))
               (filter (\<lambda>r. type (snd r) = k) (recognised p cs)))
     \<and> (\<forall>r \<in> set (recognised p cs).
           (fst r, capital_message upper (snd r)) \<in> set (entries_of (type (snd r)) changes)
           \<and> set (breaking_entries (fst r) (snd r))
               \<subseteq> set (entries_of (lit ''breaking'') changes))"
proof -
  from generate_changelog_ok [OF assms, of upper] obtain d
    where g: "generate_changelog upper p cs = Inr d"
      and e: "\<And>k. entries_of k d = concat (map (contribution upper k) (recognised p cs))"
    by blast
  have b: "entries_of k d =
             map (\<lambda>r. (fst r, capital_message upper (snd r)))
               (filter (\<lambda>r. type (snd r) = k) (recognised p cs))"
    if "k \<noteq> lit ''breaking''" for k
  proof -
    have "contribution upper k =
        (\<lambda>r. if type (snd r) = k then [(fst r, capital_message upper (snd r))] else [])"
      using that by (rule_tac ext) (auto simp: contribution_def)
    then show ?thesis by (simp add: e concat_map_if)
  qed
  have c: "(fst r, capital_message upper (snd r)) \<in> set (entries_of (type (snd r)) d)
        \<and> set (breaking_entries (fst r) (snd r)) \<subseteq> set (entries_of (lit ''breaking'') d)"
    if "r \<in> set (recognised p cs)" for r
    using that by (force simp: e contribution_def)
  from g e b c show ?thesis by blast
qed

theorem type_entry_is_unconditional_witness:
  "list_all (\<lambda>r. well_formed (snd r))
     (recognised sample_parser
        [Commit_init (lit ''a1'') (lit ''fix: typo''),
         Commit_init (lit ''b2'') (lit ''feat!: drop v1''),
         Commit_init (lit ''c3'') (lit ''feat: v2'' @ [LF, LF] @ lit ''BREAKING CHANGE: v1 removed'')])
   \<and> generate_changelog ascii_upper sample_parser
        [Commit_init (lit ''a1'') (lit ''fix: typo''),
         Commit_init (lit ''b2'') (lit ''feat!: drop v1''),
         Commit_init (lit ''c3'') (lit ''feat: v2'' @ [LF, LF] @ lit ''BREAKING CHANGE: v1 removed'')]
      = Inr [(lit ''breaking'', [(lit ''b2'', lit ''drop v1''), (lit ''c3'', lit ''v1 removed'')]),
             (lit ''fix'', [(lit ''a1'', lit ''Typo'')]),
             (lit ''feature'', [(lit ''b2'', lit ''Drop v1''), (lit ''c3'', lit ''V2'')])]
   \<and> entries_of (lit ''feature'')
        [(lit ''breaking'', [(lit ''b2'', lit ''drop v1''), (lit ''c3'', lit ''v1 removed'')]),
         (lit ''fix'', [(lit ''a1'', lit ''Typo'')]),
         (lit ''feature'', [(lit ''b2'', lit ''Drop v1''), (lit ''c3'', lit ''V2'')])]
      = map (\<lambda>r. (fst r, capital_message ascii_upper (snd r)))
          (filter (\<lambda>r. type (snd r) = lit ''feature'')
             (recognised sample_parser
                [Commit_init (lit ''a1'') (lit ''fix: typo''),
                 Commit_init (lit ''b2'') (lit ''feat!: drop v1''),
                 Commit_init (lit ''c3'')
                   (lit ''feat: v2'' @ [LF, LF] @ lit ''BREAKING CHANGE: v1 removed'')]))"
proof -
  let ?cs = "[Commit_init (lit ''a1'') (lit ''fix: typo''),
         Commit_init (lit ''b2'') (lit ''feat!: drop v1''),
         Commit_init (lit ''c3'') (lit ''feat: v2'' @ [LF, LF] @ lit ''BREAKING CHANGE: v1 removed'')]"
  let ?d = "[(lit ''breaking'', [(lit ''b2'', lit ''drop v1''), (lit ''c3'', lit ''v1 removed'')]),
             (lit ''fix'', [(lit ''a1'', lit ''Typo'')]),
             (lit ''feature'', [(lit ''b2'', lit ''Drop v1''), (lit ''c3'', lit ''V2'')])]"
  have wf: "\<forall>r \<in> set (recognised sample_parser ?cs). well_formed (snd r)"
    by (simp add: sample_simps well_formed_def)
  have g: "generate_changelog ascii_upper sample_parser ?cs = Inr ?d"
    by (simp add: generate_changelog_def add_parsed_def dict_append_def dict_contains_def
          ascii_upper_def sample_simps)
  have ne: "lit ''feature'' \<noteq> lit ''breaking''"
    by (simp add: lit_def)
  from type_entry_is_unconditional [OF wf, of ascii_upper] g ne
  have "entries_of (lit ''feature'') ?d
      = map (\<lambda>r. (fst r, capital_message ascii_upper (snd r)))
          (filter (\<lambda>r. type (snd r) = lit ''feature'') (recognised sample_parser ?cs))"
    by auto
  with wf g show ?thesis unfolding list_all_iff by blast
qed

section \<open>The Changelog Renderer\<close>

text \<open>
  Claim C3, as stated, fails: the header is said to be the key with its first letter
  upper-cased and the remaining characters unchanged. \<open>str.capitalize\<close> also
  lower-cases the remaining characters, so the key ``fooBar'' is printed as
  ``Foobar''.
\<close>

theorem capitalize_lowers_the_rest_counterexample:
  "markdown_changelog ascii_upper ascii_lower (lit ''1.0.0'')
     [(lit ''breaking'', []), (lit ''fooBar'', [(lit ''a1b2'', lit ''Add x'')])] False
   = lit ''\<newline>### Foobar\<newline>* Add x (a1b2)\<newline>''
   \<and> markdown_changelog ascii_upper ascii_lower (lit ''1.0.0'')
     [(lit ''breaking'', []), (lit ''fooBar'', [(lit ''a1b2'', lit ''Add x'')])] False
   \<noteq> lit ''\<newline>### FooBar\<newline>* Add x (a1b2)\<newline>''"
  by (simp add: markdown_changelog_def capitalize_def ascii_upper_def ascii_lower_def
        lit_def LF_def upt_conv_Cons)

text \<open>
  Claim C3, amended. The output is the optional version header followed, for each key
  with at least one entry and in the order of the keys, by an empty line, the header
  \<open>###\<close> with the capitalised key, and one line \<open>* description (sha)\<close> per
  entry; a key with no entries, ``breaking'' included, contributes nothing. The
  capitalised key is its first character through the title-case table followed by
  every later character lower-cased.
\<close>

theorem markdown_changelog_sections:
  "markdown_changelog title lower version changelog header =
     (if header then lit ''## v'' @ version @ [LF] else [])
       @ concat (map (\<lambda>s. [LF] @ lit ''### '' @ capitalize title lower (fst s) @ [LF]
                          @ concat (map (\<lambda>e. lit ''* '' @ snd e @ lit '' ('' @ fst e
                                              @ lit '')'' @ [LF]) (snd s)))
                   (filter (\<lambda>s. snd s \<noteq> []) changelog))
   \<and> capitalize title lower (c # cs) =
       title c @ concat (map (lower (c # cs)) [1..<Suc (length cs)])"
proof -
  have "section_text (capitalize title lower) =
      (\<lambda>s. [LF] @ lit ''### '' @ capitalize title lower (fst s) @ [LF]
              @ concat (map (\<lambda>e. lit ''* '' @ snd e @ lit '' ('' @ fst e
                                  @ lit '')'' @ [LF]) (snd s)))"
  proof -
    have el: "entry_line = (\<lambda>e. lit ''* '' @ snd e @ lit '' ('' @ fst e @ lit '')'' @ [LF])"
      by (rule ext) (simp add: entry_line_def)
    show ?thesis
      by (rule ext) (simp only: section_text_def el)
  qed
  then show ?thesis
    by (simp add: markdown_changelog_def render_sections_eq capitalize_def)
qed

theorem markdown_changelog_sections_witness:
  "markdown_changelog ascii_upper ascii_lower (lit ''1.3.0'')
     [(lit ''breaking'', []),
      (lit ''feature'', [(lit ''a1b2'', lit ''Add login''), (lit ''c3d4'', lit ''Add logout'')]),
      (lit ''CI'', [(lit ''e5f6'', lit ''Cache'')])] True
   = lit ''## v1.3.0\<newline>\<newline>### Feature\<newline>* Add login (a1b2)\<newline>* Add logout (c3d4)\<newline>\<newline>### Ci\<newline>* Cache (e5f6)\<newline>''"
  using markdown_changelog_sections [of ascii_upper ascii_lower "lit ''1.3.0''"
     "[(lit ''breaking'', []),
      (lit ''feature'', [(lit ''a1b2'', lit ''Add login''), (lit ''c3d4'', lit ''Add logout'')]),
      (lit ''CI'', [(lit ''e5f6'', lit ''Cache'')])]" True]
  by (simp add: capitalize_def ascii_upper_def ascii_lower_def lit_def LF_def upt_conv_Cons)

section \<open>The Release Orchestrator\<close>

text \<open>
  Claim C5. When the run collects more than 100 commits since the last tag, it ends
  with \<open>sys.exit(1)\<close>, a non-zero exit status, and everything it has done is
  writing to standard output: no version file written, no git add, commit, tag or
  push, no release posted.
\<close>

theorem more_than_100_commits_abort:
  assumes "collected w = Some commits" and "length commits > 100"
  shows "snd (main lib w) = Raised (SystemExit 1)
       \<and> exit_status (snd (main lib w)) \<noteq> 0
       \<and> (\<forall>e \<in> set (fst (main lib w)). \<not> is_mutation e)"
proof -
  from main_abort [OF assms, of lib] obtain out
    where m: "main lib w = (out, Raised (SystemExit 1))"
      and o: "\<forall>e \<in> set out. \<exists>s. e = Stdout s"
    by blast
  have "\<not> is_mutation e" if "e \<in> set out" for e
    using o that by auto
  with m show ?thesis by simp
qed

theorem more_than_100_commits_abort_witness:
  "collected sample_world = Some (replicate 101 (Commit_init (lit ''abcd'') (lit ''fix: typo'')))
   \<and> snd (main sample_library sample_world) = Raised (SystemExit 1)
   \<and> exit_status (snd (main sample_library sample_world)) = 1
   \<and> list_all (\<lambda>e. \<not> is_mutation e) (fst (main sample_library sample_world))"
proof -
  have c: "collected sample_world =
      Some (replicate 101 (Commit_init (lit ''abcd'') (lit ''fix: typo'')))"
    by (simp add: collected_def sample_world_def get_repo_def takeWhile_replicate lit_def)
  have l: "length (replicate 101 (Commit_init (lit ''abcd'') (lit ''fix: typo''))) > 100"
    by simp
  from more_than_100_commits_abort [OF c l, of sample_library] c
  show ?thesis by (simp add: list_all_iff)
qed

end
